theory Spec2Isabelle
  imports Main "HOL-Library.AList" "HOL-Library.Multiset"
begin

section \<open>Data model of the release store\<close>

text \<open>
  A shallow embedding of \<^verbatim>\<open>ReleaseStore\<close>
  (\<^verbatim>\<open>src/renderer/components/+apps-releases/release.store.ts\<close>).

  An asynchronous method is split at its \<^verbatim>\<open>await\<close>: the part that runs
  synchronously when the method is called, and the part that runs when the awaited promise
  settles. The outcome of a promise is a value of a sum type, \<open>Inl\<close> for a rejection.
\<close>

text \<open>A \<^verbatim>\<open>HelmRelease\<close>, as far as the store reads it.\<close>

record helmRelease =
  getName :: string
  getNs :: string

text \<open>
  A \<^verbatim>\<open>Secret\<close>, as far as the store reads it. The type of what
  \<^verbatim>\<open>getLabels()\<close> returns is a parameter; lodash's \<^verbatim>\<open>isEqual\<close> on it is
  equality of HOL.
\<close>

record 'l secret =
  getId :: string
  getLabels :: 'l

text \<open>A rejection value; \<^verbatim>\<open>error.error\<close> is the field that \<^verbatim>\<open>loadAll\<close> reads.\<close>

datatype failure = Failure (error: "string option")

text \<open>\<^verbatim>\<open>listReleases()\<close> is \<open>ListReleases None\<close>, \<^verbatim>\<open>listReleases(namespace)\<close> is
  \<open>ListReleases (Some namespace)\<close>, \<^verbatim>\<open>deleteRelease(name, namespace)\<close> is
  \<open>DeleteRelease name namespace\<close>.\<close>

datatype request = ListReleases "string option" | DeleteRelease string string

datatype notice = Warn string | NotifyError string

text \<open>A call of \<^verbatim>\<open>loadAll(namespaces)\<close> that a handler or a mutator makes and does not
  await.\<close>

datatype trigger = LoadAll "string list"

text \<open>\<^verbatim>\<open>dependencies.namespaceStore.context\<close>; \<open>accessibleNamespaces\<close> is
  \<^verbatim>\<open>context.cluster.accessibleNamespaces\<close>, and \<open>allNamespaces\<close> may be undefined
  (the source reads it with \<^verbatim>\<open>?.\<close>).\<close>

record namespace_context =
  contextNamespaces :: "string list"
  allNamespaces :: "string list option"
  accessibleNamespaces :: "string list"

text \<open>
  The fields of the store. \<open>releaseSecrets\<close> is the observable map, kept as an
  association list. \<open>selectedItems\<close> belongs to the base class \<^verbatim>\<open>ItemStore\<close>.
\<close>

record 'l release_store =
  items :: "helmRelease list"
  isLoading :: bool
  isLoaded :: bool
  failedLoading :: bool
  releaseSecrets :: "(string \<times> 'l secret) list"
  selectedItems :: "helmRelease list"

section \<open>The observable map\<close>

definition map_size :: "('k \<times> 'v) list \<Rightarrow> nat" where
  "map_size m = length (remdups (map fst m))"

definition map_get :: "('k \<times> 'v) list \<Rightarrow> 'k \<Rightarrow> 'v option" where
  "map_get m k = map_of m k"

text \<open>\<^verbatim>\<open>replace(entries)\<close>: the map built from the entries, a later entry for a key
  overwriting an earlier one.\<close>

definition map_replace :: "('k \<times> 'v) list \<Rightarrow> ('k \<times> 'v) list" where
  "map_replace entries = fold (\<lambda>(k, v) m. AList.update k v m) entries []"

section \<open>Promises\<close>

text \<open>
  The time at which each request settles is given by a function \<open>settles\<close> of the
  request. \<open>settle_order\<close> pairs each element of a list with its position and puts the
  pairs in the order in which the elements' requests settle (those that settle at the same
  time, in the order of the list).
\<close>

definition settle_order :: "('q \<Rightarrow> nat) \<Rightarrow> 'q list \<Rightarrow> (nat \<times> 'q) list" where
  "settle_order settles qs = sort_key (\<lambda>(i, q). settles q) (enumerate 0 qs)"

text \<open>
  \<^verbatim>\<open>Promise.all\<close>, given the outcomes of its promises in the order in which they
  settle, each with the position of its promise in the array: the rejection of the promise
  that rejects first in time if one rejects, the values in the order of the array otherwise.
\<close>

definition promise_all :: "(nat \<times> (failure + 'a)) list \<Rightarrow> failure + 'a list" where
  "promise_all settled =
     (case find (\<lambda>(i, p). isl p) settled of
        Some (i, p) \<Rightarrow> Inl (projl p)
      | None \<Rightarrow> Inr (map (\<lambda>(i, p). projr p) (sort_key fst settled)))"

text \<open>Truthiness of \<^verbatim>\<open>error.error\<close>.\<close>

fun truthy :: "string option \<Rightarrow> bool" where
  "truthy None = False"
| "truthy (Some m) = (m \<noteq> [])"

section \<open>Loading\<close>

definition isLoadingAll :: "namespace_context \<Rightarrow> string list \<Rightarrow> bool" where
  "isLoadingAll ctx namespaces =
     (case allNamespaces ctx of
        None \<Rightarrow> False
      | Some alls \<Rightarrow>
          length alls > 1
          \<and> length (accessibleNamespaces ctx) = 0
          \<and> list_all (\<lambda>ns. ns \<in> set namespaces) alls)"

text \<open>
  \<^verbatim>\<open>loadItems\<close>: the requests it issues, and the outcome of the promise it returns,
  given the outcome \<open>listReleases\<close> of each request and the time \<open>settles\<close> at which
  each request settles.
\<close>

definition loadItems ::
  "namespace_context \<Rightarrow> (request \<Rightarrow> nat) \<Rightarrow> (string option \<Rightarrow> failure + helmRelease list)
     \<Rightarrow> string list \<Rightarrow> request list \<times> (failure + helmRelease list)" where
  "loadItems ctx settles listReleases namespaces =
     (if isLoadingAll ctx namespaces
      then ([ListReleases None], listReleases None)
      else (map (\<lambda>namespace. ListReleases (Some namespace)) namespaces,
            map_sum id concat
              (promise_all
                (map (\<lambda>(i, namespace). (i, listReleases (Some namespace)))
                  (settle_order (\<lambda>namespace. settles (ListReleases (Some namespace)))
                    namespaces)))))"

text \<open>\<^verbatim>\<open>loadAll\<close> up to its \<^verbatim>\<open>await\<close>.\<close>

definition loadAll_begin :: "'l release_store \<Rightarrow> 'l release_store" where
  "loadAll_begin s = s\<lparr>isLoading := True, isLoaded := False\<rparr>"

text \<open>
  \<^verbatim>\<open>loadAll\<close> from its \<^verbatim>\<open>await\<close> on, given the outcome \<open>r\<close> of
  \<^verbatim>\<open>loadItems\<close>. \<open>sortItems\<close> is the method of the base class \<^verbatim>\<open>ItemStore\<close>.
\<close>

definition loadAll_settle ::
  "(helmRelease list \<Rightarrow> helmRelease list) \<Rightarrow> failure + helmRelease list
     \<Rightarrow> 'l release_store \<Rightarrow> notice list \<times> 'l release_store" where
  "loadAll_settle sortItems r s =
     (case r of
        Inr its \<Rightarrow>
          ([], s\<lparr>items := sortItems its, isLoaded := True, failedLoading := False,
                 isLoading := False\<rparr>)
      | Inl e \<Rightarrow>
          (Warn ''Loading Helm Chart releases has failed''
             # (if truthy (error e) then [NotifyError (the (error e))] else []),
           s\<lparr>failedLoading := True, isLoading := False\<rparr>))"

text \<open>One whole reload, nothing else running between its start and its settlement.\<close>

definition loadAll ::
  "(helmRelease list \<Rightarrow> helmRelease list) \<Rightarrow> namespace_context \<Rightarrow> (request \<Rightarrow> nat)
     \<Rightarrow> (string option \<Rightarrow> failure + helmRelease list) \<Rightarrow> string list
     \<Rightarrow> 'l release_store \<Rightarrow> request list \<times> notice list \<times> 'l release_store" where
  "loadAll sortItems ctx settles listReleases namespaces s =
     (let s1 = loadAll_begin s;
          (requests, r) = loadItems ctx settles listReleases namespaces;
          (out, s2) = loadAll_settle sortItems r s1
      in (requests, out, s2))"

text \<open>\<^verbatim>\<open>loadFromContextNamespaces\<close>, called and not awaited: the reload it starts and
  the store after the synchronous part of \<^verbatim>\<open>loadAll\<close>.\<close>

definition loadFromContextNamespaces ::
  "namespace_context \<Rightarrow> 'l release_store \<Rightarrow> trigger list \<times> 'l release_store" where
  "loadFromContextNamespaces ctx s = ([LoadAll (contextNamespaces ctx)], loadAll_begin s)"

section \<open>Watching the secrets\<close>

text \<open>\<^verbatim>\<open>getReleaseSecrets\<close>, given the result \<open>owned\<close> of
  \<^verbatim>\<open>secretsStore.getByLabel({ owner: "helm" })\<close>.\<close>

definition getReleaseSecrets :: "'l secret list \<Rightarrow> (string \<times> 'l secret) list" where
  "getReleaseSecrets owned = map (\<lambda>s. (getId s, s)) owned"

text \<open>
  The effect of the reaction that \<^verbatim>\<open>watchAssociatedSecrets\<close> installs, run on a
  change of \<^verbatim>\<open>secretsStore.getItems()\<close>. The labels of a secret that the map does
  not hold are \<^verbatim>\<open>undefined\<close>, here \<open>None\<close>.
\<close>

definition watchAssociatedSecrets ::
  "namespace_context \<Rightarrow> 'l secret list \<Rightarrow> 'l release_store
     \<Rightarrow> trigger list \<times> 'l release_store" where
  "watchAssociatedSecrets ctx owned s =
     (if isLoading s then ([], s)
      else
        (let newSecrets = getReleaseSecrets owned;
             amountChanged = (length newSecrets \<noteq> map_size (releaseSecrets s));
             labelsChanged =
               list_ex (\<lambda>(ident, secret).
                   Some (getLabels secret)
                     \<noteq> map_option getLabels (map_get (releaseSecrets s) ident))
                 newSecrets;
             (started, s1) =
               (if amountChanged \<or> labelsChanged then loadFromContextNamespaces ctx s
                else ([], s))
         in (started, s1\<lparr>releaseSecrets := map_replace newSecrets\<rparr>)))"

text \<open>The effect of the reaction that \<^verbatim>\<open>watchSelectedNamespaces\<close> installs: the
  synchronous part of \<^verbatim>\<open>loadAll(namespaces)\<close>.\<close>

definition watchSelectedNamespaces ::
  "string list \<Rightarrow> 'l release_store \<Rightarrow> trigger list \<times> 'l release_store" where
  "watchSelectedNamespaces namespaces s = ([LoadAll namespaces], loadAll_begin s)"

section \<open>Mutators\<close>

text \<open>
  Each mutator is given the outcome of its write request (\<open>createRelease\<close>,
  \<open>updateRelease\<close>, \<open>rollbackRelease\<close>) and the store \<open>s\<close> at the time that outcome
  arrives, which is when \<^verbatim>\<open>isLoaded\<close> is read. It returns what the caller gets, the
  reloads it started without awaiting them, and the store.
\<close>

definition create ::
  "namespace_context \<Rightarrow> ('p \<Rightarrow> failure + 'r) \<Rightarrow> 'p \<Rightarrow> 'l release_store
     \<Rightarrow> (failure + 'r) \<times> trigger list \<times> 'l release_store" where
  "create ctx createRelease payload s =
     (case createRelease payload of
        Inl e \<Rightarrow> (Inl e, [], s)
      | Inr response \<Rightarrow>
          (let (started, s1) =
                 (if isLoaded s then loadFromContextNamespaces ctx s else ([], s))
           in (Inr response, started, s1)))"

definition update ::
  "namespace_context \<Rightarrow> (string \<Rightarrow> string \<Rightarrow> 'p \<Rightarrow> failure + 'r) \<Rightarrow> string \<Rightarrow> string \<Rightarrow> 'p
     \<Rightarrow> 'l release_store \<Rightarrow> (failure + 'r) \<times> trigger list \<times> 'l release_store" where
  "update ctx updateRelease name namespace payload s =
     (case updateRelease name namespace payload of
        Inl e \<Rightarrow> (Inl e, [], s)
      | Inr response \<Rightarrow>
          (let (started, s1) =
                 (if isLoaded s then loadFromContextNamespaces ctx s else ([], s))
           in (Inr response, started, s1)))"

definition rollback ::
  "namespace_context \<Rightarrow> (string \<Rightarrow> string \<Rightarrow> nat \<Rightarrow> failure + 'r) \<Rightarrow> string \<Rightarrow> string \<Rightarrow> nat
     \<Rightarrow> 'l release_store \<Rightarrow> (failure + 'r) \<times> trigger list \<times> 'l release_store" where
  "rollback ctx rollbackRelease name namespace revision s =
     (case rollbackRelease name namespace revision of
        Inl e \<Rightarrow> (Inl e, [], s)
      | Inr response \<Rightarrow>
          (let (started, s1) =
                 (if isLoaded s then loadFromContextNamespaces ctx s else ([], s))
           in (Inr response, started, s1)))"

section \<open>Removing\<close>

text \<open>
  Modelled from the spec: \<^verbatim>\<open>ItemStore.removeItem\<close> and the selection of
  \<^verbatim>\<open>ItemStore\<close> (\<^verbatim>\<open>common/item.store\<close> is not among the sources). As the spec
  has it for \<open>delete\<close>: the delete request is awaited; when it is rejected the error goes
  to the caller and the store is left as it is; when it is fulfilled and the store is loaded, a
  reload of the context's namespaces is started and not awaited; and the item is removed from
  the selected items as part of the same operation.
\<close>

definition removeItem ::
  "namespace_context \<Rightarrow> helmRelease \<Rightarrow> failure + unit \<Rightarrow> 'l release_store
     \<Rightarrow> (failure + unit) \<times> trigger list \<times> 'l release_store" where
  "removeItem ctx item response s =
     (case response of
        Inl e \<Rightarrow> (Inl e, [], s)
      | Inr _ \<Rightarrow>
          (let (started, s1) =
                 (if isLoaded s then loadFromContextNamespaces ctx s else ([], s))
           in (Inr (), started, s1\<lparr>selectedItems := removeAll item (selectedItems s1)\<rparr>)))"

text \<open>\<^verbatim>\<open>remove\<close> from the time its delete request settles, with outcome
  \<open>deleteRelease name namespace\<close>.\<close>

definition remove ::
  "namespace_context \<Rightarrow> (string \<Rightarrow> string \<Rightarrow> failure + unit) \<Rightarrow> helmRelease
     \<Rightarrow> 'l release_store \<Rightarrow> (failure + unit) \<times> trigger list \<times> 'l release_store" where
  "remove ctx deleteRelease release s =
     removeItem ctx release (deleteRelease (getName release) (getNs release)) s"

text \<open>
  Promises that were all started, given in the order in which they settle, each with its
  position: each runs to its end on the store the one before left, whatever the outcome of the
  one before. The result is the outcomes in that order, the reloads started and the store.
\<close>

fun settle_all ::
  "(nat \<times> ('s \<Rightarrow> (failure + 'a) \<times> trigger list \<times> 's)) list \<Rightarrow> 's
     \<Rightarrow> (nat \<times> (failure + 'a)) list \<times> trigger list \<times> 's" where
  "settle_all [] s = ([], [], s)"
| "settle_all ((i, p) # ps) s =
     (let (r, started, s1) = p s;
          (rs, started', s2) = settle_all ps s1
      in ((i, r) # rs, started @ started', s2))"

text \<open>
  \<^verbatim>\<open>removeSelectedItems\<close>: the delete requests that the calls of
  \<^verbatim>\<open>remove\<close> issue at once, the outcome of \<^verbatim>\<open>Promise.all\<close>, and the reloads
  started and the store once every delete has settled. A reload that one of the deletes starts
  is taken to be still in flight when the later deletes settle.
\<close>

definition removeSelectedItems ::
  "namespace_context \<Rightarrow> (request \<Rightarrow> nat) \<Rightarrow> (string \<Rightarrow> string \<Rightarrow> failure + unit)
     \<Rightarrow> 'l release_store
     \<Rightarrow> request list \<times> (failure + unit list) \<times> trigger list \<times> 'l release_store" where
  "removeSelectedItems ctx settles deleteRelease s =
     (let requests = map (\<lambda>release. DeleteRelease (getName release) (getNs release))
                       (selectedItems s);
          (settled, started, s1) =
            settle_all
              (map (\<lambda>(i, release). (i, remove ctx deleteRelease release))
                (settle_order
                  (\<lambda>release. settles (DeleteRelease (getName release) (getNs release)))
                  (selectedItems s)))
              s
      in (requests, promise_all settled, started, s1))"

section \<open>Reloads that overlap\<close>

text \<open>
  Nothing in the store keeps a reload from starting while another is in flight: a trace of
  starts and settlements of \<^verbatim>\<open>loadAll\<close>, the store it leads to, and how many reloads
  are in flight after it.
\<close>

datatype load_event = Started "string list" | Settled "failure + helmRelease list"

fun reload_step ::
  "(helmRelease list \<Rightarrow> helmRelease list) \<Rightarrow> load_event \<Rightarrow> 'l release_store
     \<Rightarrow> 'l release_store" where
  "reload_step sortItems (Started namespaces) s = loadAll_begin s"
| "reload_step sortItems (Settled r) s = snd (loadAll_settle sortItems r s)"

definition run_reloads ::
  "(helmRelease list \<Rightarrow> helmRelease list) \<Rightarrow> load_event list \<Rightarrow> 'l release_store
     \<Rightarrow> 'l release_store" where
  "run_reloads sortItems evs s = fold (reload_step sortItems) evs s"

fun in_flight :: "load_event list \<Rightarrow> nat \<Rightarrow> nat" where
  "in_flight [] n = n"
| "in_flight (Started namespaces # evs) n = in_flight evs (Suc n)"
| "in_flight (Settled r # evs) n = in_flight evs (n - 1)"

fun fulfilled :: "load_event \<Rightarrow> bool" where
  "fulfilled (Started namespaces) = False"
| "fulfilled (Settled r) = (\<not> isl r)"

section \<open>Example data\<close>

text \<open>A cluster of three namespaces, two of them selected, no restriction on access.\<close>

definition ctx_ab :: namespace_context where
  "ctx_ab = \<lparr>contextNamespaces = [''a'', ''b''], allNamespaces = Some [''a'', ''b'', ''c''],
     accessibleNamespaces = []\<rparr>"

text \<open>A cluster of one namespace, selected, no restriction on access.\<close>

definition ctx_single :: namespace_context where
  "ctx_single = \<lparr>contextNamespaces = [''default''], allNamespaces = Some [''default''],
     accessibleNamespaces = []\<rparr>"

text \<open>A cluster of two namespaces, both selected, no restriction on access.\<close>

definition ctx_full :: namespace_context where
  "ctx_full = \<lparr>contextNamespaces = [''a'', ''b''], allNamespaces = Some [''a'', ''b''],
     accessibleNamespaces = []\<rparr>"

definition secret_s1 :: "string list secret" where
  "secret_s1 = \<lparr>getId = ''s1'', getLabels = [''owner=helm'', ''name=web'']\<rparr>"

definition secret_s1_relabelled :: "string list secret" where
  "secret_s1_relabelled = \<lparr>getId = ''s1'', getLabels = [''owner=helm'', ''name=web'', ''v=2'']\<rparr>"

definition secret_s2 :: "string list secret" where
  "secret_s2 = \<lparr>getId = ''s2'', getLabels = [''owner=helm'', ''name=web'']\<rparr>"

definition release_old :: helmRelease where
  "release_old = \<lparr>getName = ''old'', getNs = ''a''\<rparr>"

definition release_web :: helmRelease where
  "release_web = \<lparr>getName = ''web'', getNs = ''a''\<rparr>"

definition release_db :: helmRelease where
  "release_db = \<lparr>getName = ''db'', getNs = ''b''\<rparr>"

text \<open>A store that has loaded once, with one release secret in its map and nothing in
  flight.\<close>

definition store_idle :: "string list release_store" where
  "store_idle = \<lparr>items = [release_old], isLoading = False, isLoaded = True,
     failedLoading = False, releaseSecrets = [(''s1'', secret_s1)],
     selectedItems = [release_old, release_web, release_db]\<rparr>"

text \<open>The same store while a reload is in flight.\<close>

definition store_loading :: "string list release_store" where
  "store_loading = loadAll_begin store_idle"

text \<open>The same store after a reload that failed.\<close>

definition store_failed :: "string list release_store" where
  "store_failed = store_idle\<lparr>isLoaded := False, failedLoading := True\<rparr>"

text \<open>Every request fulfils.\<close>

definition fetch_ok :: "string option \<Rightarrow> failure + helmRelease list" where
  "fetch_ok q =
     (case q of
        None \<Rightarrow> Inr [release_web, release_db]
      | Some ns \<Rightarrow> Inr (filter (\<lambda>r. getNs r = ns) [release_web, release_db]))"

text \<open>The request for namespace \<open>b\<close> rejects, the others fulfil.\<close>

definition fetch_b_fails :: "string option \<Rightarrow> failure + helmRelease list" where
  "fetch_b_fails q = (if q = Some ''b'' then Inl (Failure (Some ''forbidden'')) else fetch_ok q)"

text \<open>Deleting \<open>web\<close> is rejected, every other delete fulfils.\<close>

definition delete_web_fails :: "string \<Rightarrow> string \<Rightarrow> failure + unit" where
  "delete_web_fails name namespace =
     (if name = ''web'' then Inl (Failure (Some ''conflict'')) else Inr ())"

text \<open>Deleting \<open>old\<close> and deleting \<open>web\<close> are rejected, every other delete
  fulfils.\<close>

definition delete_old_web_fail :: "string \<Rightarrow> string \<Rightarrow> failure + unit" where
  "delete_old_web_fail name namespace =
     (if name = ''old'' then Inl (Failure (Some ''slow''))
      else if name = ''web'' then Inl (Failure (Some ''fast''))
      else Inr ())"

text \<open>Settlement times: the list of namespace \<open>b\<close> settles before the other lists; the
  delete of \<open>web\<close> settles first, the delete of \<open>old\<close> last.\<close>

definition settle_times :: "request \<Rightarrow> nat" where
  "settle_times q =
     (case q of
        ListReleases namespace \<Rightarrow> (if namespace = Some ''b'' then 1 else 2)
      | DeleteRelease name namespace \<Rightarrow>
          (if name = ''web'' then 1 else if name = ''old'' then 5 else 3))"

text \<open>Writes that are rejected, and writes that fulfil with the name of what they wrote.\<close>

definition createRelease_fails :: "string \<Rightarrow> failure + string" where
  "createRelease_fails payload = Inl (Failure (Some ''denied''))"

definition createRelease_ok :: "string \<Rightarrow> failure + string" where
  "createRelease_ok payload = Inr payload"

definition updateRelease_fails :: "string \<Rightarrow> string \<Rightarrow> string \<Rightarrow> failure + string" where
  "updateRelease_fails name namespace payload = Inl (Failure (Some ''denied''))"

definition updateRelease_ok :: "string \<Rightarrow> string \<Rightarrow> string \<Rightarrow> failure + string" where
  "updateRelease_ok name namespace payload = Inr name"

definition rollbackRelease_fails :: "string \<Rightarrow> string \<Rightarrow> nat \<Rightarrow> failure + string" where
  "rollbackRelease_fails name namespace revision = Inl (Failure (Some ''denied''))"

definition rollbackRelease_ok :: "string \<Rightarrow> string \<Rightarrow> nat \<Rightarrow> failure + string" where
  "rollbackRelease_ok name namespace revision = Inr name"

section \<open>Properties of promises and of the map\<close>

lemmas load_defs =
  loadAll_def loadItems_def isLoadingAll_def loadAll_begin_def loadAll_settle_def
  loadFromContextNamespaces_def settle_order_def promise_all_def

lemma set_settle_order: "set (settle_order k qs) = set (enumerate 0 qs)"
  by (simp add: settle_order_def)

lemma in_settle_order:
  assumes "q \<in> set qs"
  shows "\<exists>i. (i, q) \<in> set (settle_order k qs)"
proof -
  from assms obtain n where "n < length qs" "qs ! n = q"
    by (auto simp: in_set_conv_nth)
  then have "(n, q) \<in> set (enumerate 0 qs)"
    by (simp add: in_set_enumerate_eq)
  then show ?thesis
    by (auto simp: set_settle_order)
qed

lemma settle_order_in: "(i, q) \<in> set (settle_order k qs) \<Longrightarrow> q \<in> set qs"
  by (auto simp: set_settle_order in_set_enumerate_eq)

lemma snd_set_settle_order: "snd ` set (settle_order k qs) = set qs"
proof -
  have "snd ` set (enumerate 0 qs) = set (map snd (enumerate 0 qs))"
    by (simp only: set_map)
  then show ?thesis
    by (simp add: set_settle_order)
qed

lemma promise_all_rejects:
  "(i, p) \<in> set settled \<Longrightarrow> isl p \<Longrightarrow> isl (promise_all settled)"
  by (cases "find (\<lambda>(i, p). isl p) settled")
    (auto simp: promise_all_def find_None_iff)

text \<open>Sorting the settled promises by position gives back the order of the array.\<close>

lemma restore_order:
  "sort_key fst (map (\<lambda>(i, q). (i, f q)) (settle_order k qs))
     = map (\<lambda>(i, q). (i, f q)) (enumerate 0 qs)"
proof (rule sort_key_inj_key_eq)
  show "mset (map (\<lambda>(i, q). (i, f q)) (settle_order k qs))
      = mset (map (\<lambda>(i, q). (i, f q)) (enumerate 0 qs))"
    by (simp add: settle_order_def)
  have "distinct (map fst (map (\<lambda>(i, q). (i, f q)) (enumerate 0 qs)))"
    by (simp add: comp_def case_prod_beta)
  then have "inj_on fst (set (map (\<lambda>(i, q). (i, f q)) (enumerate 0 qs)))"
    by (simp only: distinct_map)
  moreover have "set (map (\<lambda>(i, q). (i, f q)) (settle_order k qs))
      = set (map (\<lambda>(i, q). (i, f q)) (enumerate 0 qs))"
    by (simp add: set_settle_order)
  ultimately show "inj_on fst (set (map (\<lambda>(i, q). (i, f q)) (settle_order k qs)))"
    by simp
  show "sorted (map fst (map (\<lambda>(i, q). (i, f q)) (enumerate 0 qs)))"
    by (simp add: comp_def case_prod_beta)
qed

text \<open>When every promise fulfils, \<open>promise_all\<close> gives the values in the order of the
  array, whatever the order of settlement.\<close>

lemma promise_all_fulfils:
  assumes "\<forall>q \<in> set qs. \<not> isl (f q)"
  shows "promise_all (map (\<lambda>(i, q). (i, f q)) (settle_order k qs))
    = Inr (map (\<lambda>q. projr (f q)) qs)"
proof -
  have "find (\<lambda>(i, p). isl p) (map (\<lambda>(i, q). (i, f q)) (settle_order k qs)) = None"
    using assms by (auto simp: find_None_iff dest: settle_order_in)
  moreover have "map (\<lambda>(i, p). projr p) (map (\<lambda>(i, q). (i, f q)) (enumerate 0 qs))
      = map (\<lambda>q. projr (f q)) (map snd (enumerate 0 qs))"
    by (simp add: comp_def case_prod_beta del: map_snd_enumerate)
  ultimately show ?thesis
    by (simp add: promise_all_def restore_order)
qed

lemma find_first:
  "find P xs = Some x \<Longrightarrow> \<exists>j < length xs. xs ! j = x \<and> P x \<and> (\<forall>m < j. \<not> P (xs ! m))"
  by (auto simp: find_Some_iff)

text \<open>When a promise rejects, \<open>promise_all\<close> gives the rejection of a promise that no
  other rejecting promise settles before.\<close>

lemma promise_all_first_rejection:
  assumes "\<exists>q \<in> set qs. isl (f q)"
  shows "\<exists>q \<in> set qs. isl (f q)
     \<and> promise_all (map (\<lambda>(i, q). (i, f q)) (settle_order k qs)) = Inl (projl (f q))
     \<and> (\<forall>q' \<in> set qs. isl (f q') \<longrightarrow> k q \<le> k q')"
proof -
  let ?T = "settle_order k qs"
  let ?S = "map (\<lambda>(i, q). (i, f q)) ?T"
  let ?P = "\<lambda>(i, p). isl p"
  from assms obtain q0 where "q0 \<in> set qs" "isl (f q0)" by blast
  then obtain i0 where "(i0, q0) \<in> set ?T" using in_settle_order by fast
  then have "(\<lambda>(i, q). (i, f q)) (i0, q0) \<in> set ?S"
    unfolding set_map by (rule imageI)
  then have "(i0, f q0) \<in> set ?S" by simp
  with \<open>isl (f q0)\<close> have "\<exists>x. x \<in> set ?S \<and> ?P x"
    by (intro exI [of _ "(i0, f q0)"]) simp
  then have "find ?P ?S \<noteq> None"
    by (simp only: find_None_iff not_not)
  then obtain i p where found: "find ?P ?S = Some (i, p)" by auto
  from find_first [OF found]
  obtain j where j: "j < length ?S" "?P (?S ! j)" "(i, p) = ?S ! j"
    and first: "\<forall>m < j. \<not> ?P (?S ! m)"
    by metis
  obtain q where q: "?T ! j = (i, q)" "p = f q"
    using j by (cases "?T ! j") auto
  have "q \<in> set qs"
    using j(1) q(1) settle_order_in [of i q k qs] nth_mem [of j ?T] by simp
  moreover have "isl (f q)" using j q by simp
  moreover have "promise_all ?S = Inl (projl (f q))"
    using found q by (simp add: promise_all_def)
  moreover have "k q \<le> k q'" if "q' \<in> set qs" "isl (f q')" for q'
  proof -
    from that obtain i' where "(i', q') \<in> set ?T" using in_settle_order by fast
    then obtain m where m: "m < length ?T" "?T ! m = (i', q')"
      by (auto simp: in_set_conv_nth)
    with that have "?P (?S ! m)" by simp
    with first have "j \<le> m" by (meson not_le)
    have in_time: "sorted (map (\<lambda>(i, q). k q) ?T)"
      unfolding settle_order_def by (rule sorted_sort_key)
    have "map (\<lambda>(i, q). k q) ?T ! j \<le> map (\<lambda>(i, q). k q) ?T ! m"
      by (rule sorted_nth_mono [OF in_time \<open>j \<le> m\<close>]) (simp add: m(1))
    with m j(1) q show ?thesis by simp
  qed
  ultimately show ?thesis by blast
qed

lemma map_of_fold_update:
  "map_of (fold (\<lambda>(k, v) m. AList.update k v m) es m) = map_of m ++ map_of (rev es)"
  by (induction es arbitrary: m) (auto simp: update_conv')

text \<open>Looking a key up after \<open>map_replace\<close> finds the last entry given for it.\<close>

lemma map_get_map_replace: "map_get (map_replace es) = map_of (rev es)"
  by (simp add: map_get_def map_replace_def map_of_fold_update fun_eq_iff)

lemma labels_differ_iff:
  "Some l \<noteq> map_option f m \<longleftrightarrow> m = None \<or> (\<exists>old. m = Some old \<and> f old \<noteq> l)"
  by (cases m) auto

lemma loadAll_phases:
  "loadAll sortItems ctx settles listReleases namespaces s =
     (fst (loadItems ctx settles listReleases namespaces),
      loadAll_settle sortItems (snd (loadItems ctx settles listReleases namespaces))
        (loadAll_begin s))"
  by (simp add: loadAll_def Let_def split: prod.splits)

section \<open>Properties of loading\<close>

text \<open>
  Claim C1. When a per-namespace request that a reload issues rejects, the reload commits
  nothing: at settlement the items are the ones from before the reload and
  \<open>failedLoading\<close> is true. The failing settlement by itself leaves the items of any store
  as they are.
\<close>

theorem loadAll_all_or_nothing:
  assumes "loadAll sortItems ctx settles listReleases namespaces s = (requests, out, s')"
    and "ListReleases (Some ns) \<in> set requests"
    and "isl (listReleases (Some ns))"
  shows "items s' = items s \<and> failedLoading s' = True
    \<and> items (snd (loadAll_settle sortItems (Inl e) t)) = items t"
proof -
  have per_ns: "\<not> isLoadingAll ctx namespaces"
    using assms(1,2) by (auto simp: loadAll_def loadItems_def split: if_splits)
  then have "ns \<in> set namespaces"
    using assms(1,2) by (auto simp: loadAll_def loadItems_def)
  then obtain i where
    "(i, ns) \<in> set (settle_order (\<lambda>namespace. settles (ListReleases (Some namespace))) namespaces)"
    using in_settle_order by fast
  then have "(\<lambda>(i, namespace). (i, listReleases (Some namespace))) (i, ns)
      \<in> set (map (\<lambda>(i, namespace). (i, listReleases (Some namespace)))
          (settle_order (\<lambda>namespace. settles (ListReleases (Some namespace))) namespaces))"
    unfolding set_map by (rule imageI)
  then have "(i, listReleases (Some ns))
      \<in> set (map (\<lambda>(i, namespace). (i, listReleases (Some namespace)))
          (settle_order (\<lambda>namespace. settles (ListReleases (Some namespace))) namespaces))"
    by simp
  then have "isl (promise_all (map (\<lambda>(i, namespace). (i, listReleases (Some namespace)))
      (settle_order (\<lambda>namespace. settles (ListReleases (Some namespace))) namespaces)))"
    using assms(3) by (rule promise_all_rejects)
  then obtain err where
    "promise_all (map (\<lambda>(i, namespace). (i, listReleases (Some namespace)))
      (settle_order (\<lambda>namespace. settles (ListReleases (Some namespace))) namespaces)) = Inl err"
    by (auto simp: isl_def)
  then have "s' = snd (loadAll_settle sortItems (Inl err) (loadAll_begin s))"
    using assms(1) per_ns by (simp add: loadAll_def loadItems_def split: prod.splits)
  then show ?thesis
    by (simp add: loadAll_settle_def loadAll_begin_def)
qed

theorem loadAll_all_or_nothing_witness:
  "ListReleases (Some ''b'') \<in> set (fst (loadAll rev ctx_ab settle_times fetch_b_fails [''a'', ''b''] store_idle))
   \<and> isl (fetch_b_fails (Some ''b''))
   \<and> items (snd (snd (loadAll rev ctx_ab settle_times fetch_b_fails [''a'', ''b''] store_idle))) = [release_old]
   \<and> failedLoading (snd (snd (loadAll rev ctx_ab settle_times fetch_b_fails [''a'', ''b''] store_idle)))"
proof -
  have run: "loadAll rev ctx_ab settle_times fetch_b_fails [''a'', ''b''] store_idle =
      ([ListReleases (Some ''a''), ListReleases (Some ''b'')],
       [Warn ''Loading Helm Chart releases has failed'', NotifyError ''forbidden''],
       store_idle\<lparr>isLoaded := False, failedLoading := True\<rparr>)"
    by (simp add: load_defs ctx_ab_def settle_times_def fetch_b_fails_def fetch_ok_def
        store_idle_def)
  have req: "ListReleases (Some ''b'') \<in> set [ListReleases (Some ''a''), ListReleases (Some ''b'')]"
    by simp
  have rej: "isl (fetch_b_fails (Some ''b''))"
    by (simp add: fetch_b_fails_def)
  from loadAll_all_or_nothing [OF run req rej] run rej show ?thesis
    by (simp add: store_idle_def)
qed

section \<open>Properties of the secrets watcher\<close>

text \<open>
  Claim C2, as stated, at a concrete input. The store is not loading and holds one release
  secret, \<open>s1\<close>. The secrets change so that \<open>s1\<close> is gone and \<open>s2\<close>, with the same
  labels, is there: the number of owned secrets is the size of the map, and no secret is in
  both the old and the new map, yet the reload is started.
\<close>

theorem watchAssociatedSecrets_swap_reloads:
  "\<not> (fst (watchAssociatedSecrets ctx_ab [secret_s2] store_idle) \<noteq> []
       \<longleftrightarrow> \<not> isLoading store_idle
           \<and> (length [secret_s2] \<noteq> map_size (releaseSecrets store_idle)
              \<or> (\<exists>sec \<in> set [secret_s2]. \<exists>old.
                    map_get (releaseSecrets store_idle) (getId sec) = Some old
                    \<and> getLabels old \<noteq> getLabels sec)))"
  by (simp add: watchAssociatedSecrets_def getReleaseSecrets_def loadFromContextNamespaces_def
      map_size_def map_get_def store_idle_def secret_s1_def secret_s2_def)

text \<open>
  Claim C2, amended. A change of the secrets starts a reload, one, of the context's
  namespaces, if and only if the store is not loading and either the number of owned secrets
  differs from the size of the map, or an owned secret is not in the map, or an owned secret
  is in the map with other labels. While the store is loading no reload is started.
\<close>

theorem watchAssociatedSecrets_reload_iff:
  "fst (watchAssociatedSecrets ctx owned s) =
     (if \<not> isLoading s
         \<and> (length owned \<noteq> map_size (releaseSecrets s)
            \<or> (\<exists>sec \<in> set owned.
                  map_get (releaseSecrets s) (getId sec) = None
                  \<or> (\<exists>old. map_get (releaseSecrets s) (getId sec) = Some old
                        \<and> getLabels old \<noteq> getLabels sec)))
      then [LoadAll (contextNamespaces ctx)] else [])"
proof (cases "isLoading s")
  case True
  then show ?thesis by (simp add: watchAssociatedSecrets_def)
next
  case False
  have "list_ex (\<lambda>(ident, secret). Some (getLabels secret)
            \<noteq> map_option getLabels (map_get (releaseSecrets s) ident))
          (getReleaseSecrets owned)
        \<longleftrightarrow> (\<exists>sec \<in> set owned.
            map_get (releaseSecrets s) (getId sec) = None
            \<or> (\<exists>old. map_get (releaseSecrets s) (getId sec) = Some old
                  \<and> getLabels old \<noteq> getLabels sec))"
    by (simp add: list_ex_iff getReleaseSecrets_def labels_differ_iff)
  with False show ?thesis
    by (simp add: watchAssociatedSecrets_def Let_def loadFromContextNamespaces_def
        getReleaseSecrets_def split: prod.splits)
qed

text \<open>The amended claim at four inputs: a relabelled secret, an unchanged one, a secret more,
  and a change while loading.\<close>

theorem watchAssociatedSecrets_reload_iff_witness:
  "fst (watchAssociatedSecrets ctx_ab [secret_s1_relabelled] store_idle) = [LoadAll [''a'', ''b'']]
   \<and> fst (watchAssociatedSecrets ctx_ab [secret_s1] store_idle) = []
   \<and> fst (watchAssociatedSecrets ctx_ab [secret_s1, secret_s2] store_idle) = [LoadAll [''a'', ''b'']]
   \<and> fst (watchAssociatedSecrets ctx_ab [secret_s1_relabelled] store_loading) = []"
  using watchAssociatedSecrets_reload_iff [of ctx_ab "[secret_s1_relabelled]" store_idle]
    watchAssociatedSecrets_reload_iff [of ctx_ab "[secret_s1]" store_idle]
    watchAssociatedSecrets_reload_iff [of ctx_ab "[secret_s1, secret_s2]" store_idle]
    watchAssociatedSecrets_reload_iff [of ctx_ab "[secret_s1_relabelled]" store_loading]
  by (simp add: map_size_def map_get_def store_idle_def store_loading_def loadAll_begin_def
      secret_s1_def secret_s2_def secret_s1_relabelled_def ctx_ab_def)

text \<open>
  Claim C3, as stated, at a concrete input. The secrets change while the store is loading:
  the handler returns at once and the map still holds \<open>s1\<close>, not the fresh \<open>s2\<close>.
\<close>

theorem watchAssociatedSecrets_loading_keeps_map:
  "isLoading store_loading
   \<and> releaseSecrets (snd (watchAssociatedSecrets ctx_ab [secret_s2] store_loading))
       = [(''s1'', secret_s1)]
   \<and> releaseSecrets (snd (watchAssociatedSecrets ctx_ab [secret_s2] store_loading))
       \<noteq> map_replace (getReleaseSecrets [secret_s2])"
  by (simp add: watchAssociatedSecrets_def getReleaseSecrets_def map_replace_def
      store_loading_def loadAll_begin_def store_idle_def secret_s1_def secret_s2_def)

text \<open>
  Claim C3, amended. A change of the secrets that arrives while the store is not loading
  replaces the map by the freshly computed owned secrets, whether or not it starts a reload;
  a lookup in the new map finds the last owned secret of that id. A change that arrives while
  the store is loading leaves the whole store, the map included, as it is.
\<close>

theorem watchAssociatedSecrets_replaces_map:
  "releaseSecrets (snd (watchAssociatedSecrets ctx owned s)) =
     (if isLoading s then releaseSecrets s else map_replace (getReleaseSecrets owned))
   \<and> map_get (map_replace (getReleaseSecrets owned)) = map_of (rev (getReleaseSecrets owned))
   \<and> (isLoading s \<longrightarrow> snd (watchAssociatedSecrets ctx owned s) = s)"
  by (simp add: watchAssociatedSecrets_def Let_def loadFromContextNamespaces_def
      map_get_map_replace split: prod.splits)

text \<open>The amended claim at three inputs: a change that starts a reload, one that starts
  none, and one while loading.\<close>

theorem watchAssociatedSecrets_replaces_map_witness:
  "releaseSecrets (snd (watchAssociatedSecrets ctx_ab [secret_s2] store_idle)) = [(''s2'', secret_s2)]
   \<and> releaseSecrets (snd (watchAssociatedSecrets ctx_ab [secret_s1] store_idle)) = [(''s1'', secret_s1)]
   \<and> isLoading store_loading
   \<and> snd (watchAssociatedSecrets ctx_ab [secret_s2] store_loading) = store_loading"
  using watchAssociatedSecrets_replaces_map [of ctx_ab "[secret_s2]" store_idle]
    watchAssociatedSecrets_replaces_map [of ctx_ab "[secret_s1]" store_idle]
    watchAssociatedSecrets_replaces_map [of ctx_ab "[secret_s2]" store_loading]
  by (simp add: map_replace_def getReleaseSecrets_def store_idle_def store_loading_def
      loadAll_begin_def secret_s1_def secret_s2_def)

section \<open>Properties of the requests of a reload\<close>

text \<open>
  Claim C4, as stated, at a concrete input. The cluster has the one namespace
  \<open>default\<close>, it is selected, and access is not restricted: the selection covers every
  namespace, yet the reload issues the per-namespace request and not the request for all
  namespaces.
\<close>

theorem loadItems_single_namespace_not_listAll:
  "allNamespaces ctx_single = Some [''default'']
   \<and> set [''default''] \<subseteq> set (contextNamespaces ctx_single)
   \<and> accessibleNamespaces ctx_single = []
   \<and> fst (loadItems ctx_single settle_times fetch_ok (contextNamespaces ctx_single))
       = [ListReleases (Some ''default'')]
   \<and> fst (loadItems ctx_single settle_times fetch_ok (contextNamespaces ctx_single)) \<noteq> [ListReleases None]"
  by (simp add: loadItems_def isLoadingAll_def ctx_single_def)

text \<open>
  Claim C4, amended. When the cluster exposes more than one namespace, the namespaces given
  to the reload cover all of them and access is not restricted, the reload issues exactly one
  request, the one for all namespaces, and its outcome is the outcome of that request.
\<close>

theorem loadItems_all_namespaces:
  assumes "allNamespaces ctx = Some alls"
    and "1 < length alls"
    and "accessibleNamespaces ctx = []"
    and "set alls \<subseteq> set namespaces"
  shows "loadItems ctx settles listReleases namespaces = ([ListReleases None], listReleases None)"
  using assms by (auto simp: loadItems_def isLoadingAll_def list_all_iff)

theorem loadItems_all_namespaces_witness:
  "allNamespaces ctx_full = Some [''a'', ''b'']
   \<and> 1 < length [''a'', ''b'']
   \<and> accessibleNamespaces ctx_full = []
   \<and> set [''a'', ''b''] \<subseteq> set (contextNamespaces ctx_full)
   \<and> loadItems ctx_full settle_times fetch_ok (contextNamespaces ctx_full)
       = ([ListReleases None], Inr [release_web, release_db])"
proof -
  have alls: "allNamespaces ctx_full = Some [''a'', ''b'']"
    by (simp add: ctx_full_def)
  have many: "1 < length [''a'', ''b'']"
    by simp
  have free: "accessibleNamespaces ctx_full = []"
    by (simp add: ctx_full_def)
  have covers: "set [''a'', ''b''] \<subseteq> set (contextNamespaces ctx_full)"
    by (simp add: ctx_full_def)
  from loadItems_all_namespaces
      [OF alls many free covers, where settles = settle_times and listReleases = fetch_ok]
    alls many free covers
  show ?thesis
    by (simp add: fetch_ok_def)
qed

section \<open>Properties of the status flags\<close>

text \<open>
  Claim C5, as stated, at a concrete input. A reload that starts on a store whose last
  reload failed does not clear \<open>failedLoading\<close>: the flag is still set while the reload is
  in flight.
\<close>

theorem loadAll_begin_keeps_failedLoading:
  "failedLoading store_failed \<and> isLoading (loadAll_begin store_failed)
   \<and> failedLoading (loadAll_begin store_failed)"
  by (simp add: loadAll_begin_def store_failed_def)

text \<open>
  Claim C5, amended. The start of a reload leaves \<open>failedLoading\<close> as it is. When the reload
  settles, \<open>failedLoading\<close> is set if the attempt failed and cleared if it succeeded: after a
  whole reload the flag says whether that attempt failed.
\<close>

theorem loadAll_failedLoading:
  "failedLoading (loadAll_begin s) = failedLoading s
   \<and> failedLoading (snd (loadAll_settle sortItems r t)) = isl r
   \<and> failedLoading (snd (snd (loadAll sortItems ctx settles listReleases namespaces s)))
       = isl (snd (loadItems ctx settles listReleases namespaces))"
  by (cases r; cases "snd (loadItems ctx settles listReleases namespaces)")
    (simp_all add: loadAll_phases loadAll_begin_def loadAll_settle_def)

text \<open>The amended claim at a reload that succeeds after one that failed, and at a reload that
  fails.\<close>

theorem loadAll_failedLoading_witness:
  "failedLoading store_failed
   \<and> \<not> failedLoading (snd (snd (loadAll rev ctx_ab settle_times fetch_ok [''a'', ''b''] store_failed)))
   \<and> failedLoading (snd (snd (loadAll rev ctx_ab settle_times fetch_b_fails [''a'', ''b''] store_idle)))"
  using loadAll_failedLoading
      [where s = store_failed and sortItems = rev and r = "Inr []" and t = store_failed
        and ctx = ctx_ab and settles = settle_times and listReleases = fetch_ok
        and namespaces = "[''a'', ''b'']"]
    loadAll_failedLoading
      [where s = store_idle and sortItems = rev and r = "Inr []" and t = store_idle
        and ctx = ctx_ab and settles = settle_times and listReleases = fetch_b_fails
        and namespaces = "[''a'', ''b'']"]
  by (simp add: loadItems_def isLoadingAll_def settle_order_def promise_all_def ctx_ab_def
      settle_times_def fetch_ok_def fetch_b_fails_def store_failed_def)

text \<open>
  Claim C6, as stated, at a concrete input. A reload in which the request for namespace
  \<open>b\<close> rejects has settled (\<open>isLoading\<close> is false again), and \<open>isLoaded\<close> is false,
  on a store where it was true before.
\<close>

theorem loadAll_failed_not_isLoaded:
  "isLoaded store_idle
   \<and> \<not> isLoading (snd (snd (loadAll rev ctx_ab settle_times fetch_b_fails [''a'', ''b''] store_idle)))
   \<and> \<not> isLoaded (snd (snd (loadAll rev ctx_ab settle_times fetch_b_fails [''a'', ''b''] store_idle)))"
  by (simp add: load_defs ctx_ab_def settle_times_def fetch_b_fails_def fetch_ok_def
      store_idle_def)

text \<open>
  Claim C6, amended. After a reload settles \<open>isLoaded\<close> is true if and only if the reload
  succeeded. Taken alone, a successful settlement sets the flag and a failing one leaves it as
  it is, which is false since the start of the reload unless a reload that overlaps has
  succeeded in between.
\<close>

theorem loadAll_isLoaded:
  "isLoaded (snd (snd (loadAll sortItems ctx settles listReleases namespaces s)))
     = (\<not> isl (snd (loadItems ctx settles listReleases namespaces)))
   \<and> isLoaded (snd (loadAll_settle sortItems (Inr its) t))
   \<and> isLoaded (snd (loadAll_settle sortItems (Inl e) t)) = isLoaded t
   \<and> \<not> isLoading (snd (snd (loadAll sortItems ctx settles listReleases namespaces s)))"
  by (cases "snd (loadItems ctx settles listReleases namespaces)")
    (simp_all add: loadAll_phases loadAll_begin_def loadAll_settle_def)

theorem loadAll_isLoaded_witness:
  "isLoaded (snd (snd (loadAll rev ctx_ab settle_times fetch_ok [''a'', ''b''] store_failed)))
   \<and> \<not> isLoaded (snd (snd (loadAll rev ctx_ab settle_times fetch_b_fails [''a'', ''b''] store_idle)))"
  using loadAll_isLoaded
      [where sortItems = rev and ctx = ctx_ab and settles = settle_times
        and listReleases = fetch_ok and namespaces = "[''a'', ''b'']" and s = store_failed
        and its = "[]" and t = store_idle]
    loadAll_isLoaded
      [where sortItems = rev and ctx = ctx_ab and settles = settle_times
        and listReleases = fetch_b_fails and namespaces = "[''a'', ''b'']" and s = store_idle
        and its = "[]" and t = store_idle]
  by (simp add: loadItems_def isLoadingAll_def settle_order_def promise_all_def ctx_ab_def
      settle_times_def fetch_ok_def fetch_b_fails_def)

section \<open>Properties of the mutators\<close>

text \<open>
  Claim C7. Each of \<open>create\<close>, \<open>update\<close> and \<open>rollback\<close> returns the outcome of its write.
  When the write fulfils and the store is loaded, it starts exactly one reload, of the
  context's namespaces, and returns while that reload is in flight. When the write is
  rejected, the rejection goes to the caller, no reload is started and the store, with its
  items and its map of secrets, is as before.
\<close>

theorem mutators_reload_after_write:
  "(createRelease payload = Inr response \<and> isLoaded s \<longrightarrow>
      create ctx createRelease payload s
        = (Inr response, [LoadAll (contextNamespaces ctx)], loadAll_begin s))
   \<and> (createRelease payload = Inl e \<longrightarrow>
      create ctx createRelease payload s = (Inl e, [], s))
   \<and> (updateRelease name namespace payload' = Inr response' \<and> isLoaded s \<longrightarrow>
      update ctx updateRelease name namespace payload' s
        = (Inr response', [LoadAll (contextNamespaces ctx)], loadAll_begin s))
   \<and> (updateRelease name namespace payload' = Inl e \<longrightarrow>
      update ctx updateRelease name namespace payload' s = (Inl e, [], s))
   \<and> (rollbackRelease name namespace revision = Inr response'' \<and> isLoaded s \<longrightarrow>
      rollback ctx rollbackRelease name namespace revision s
        = (Inr response'', [LoadAll (contextNamespaces ctx)], loadAll_begin s))
   \<and> (rollbackRelease name namespace revision = Inl e \<longrightarrow>
      rollback ctx rollbackRelease name namespace revision s = (Inl e, [], s))
   \<and> isLoading (loadAll_begin s) \<and> items (loadAll_begin s) = items s
   \<and> releaseSecrets (loadAll_begin s) = releaseSecrets s"
  by (simp add: create_def update_def rollback_def loadFromContextNamespaces_def
      loadAll_begin_def)

text \<open>The claim at writes that fulfil on a loaded store, and at writes that are rejected.\<close>

theorem mutators_reload_after_write_witness:
  "isLoaded store_idle
   \<and> create ctx_ab createRelease_ok ''web'' store_idle
       = (Inr ''web'', [LoadAll [''a'', ''b'']], store_loading)
   \<and> update ctx_ab updateRelease_ok ''web'' ''a'' ''values'' store_idle
       = (Inr ''web'', [LoadAll [''a'', ''b'']], store_loading)
   \<and> rollback ctx_ab rollbackRelease_ok ''web'' ''a'' 1 store_idle
       = (Inr ''web'', [LoadAll [''a'', ''b'']], store_loading)
   \<and> create ctx_ab createRelease_fails ''web'' store_idle
       = (Inl (Failure (Some ''denied'')), [], store_idle)
   \<and> update ctx_ab updateRelease_fails ''web'' ''a'' ''values'' store_idle
       = (Inl (Failure (Some ''denied'')), [], store_idle)
   \<and> rollback ctx_ab rollbackRelease_fails ''web'' ''a'' 1 store_idle
       = (Inl (Failure (Some ''denied'')), [], store_idle)"
  using mutators_reload_after_write
    [where createRelease = createRelease_ok and payload = "''web''" and response = "''web''"
      and s = store_idle and ctx = ctx_ab and updateRelease = updateRelease_ok
      and name = "''web''" and namespace = "''a''" and payload' = "''values''"
      and response' = "''web''" and rollbackRelease = rollbackRelease_ok and revision = 1
      and response'' = "''web''"]
    mutators_reload_after_write
    [where createRelease = createRelease_fails and payload = "''web''"
      and s = store_idle and ctx = ctx_ab and updateRelease = updateRelease_fails
      and name = "''web''" and namespace = "''a''" and payload' = "''values''"
      and rollbackRelease = rollbackRelease_fails and revision = 1
      and e = "Failure (Some ''denied'')"]
  by (simp add: createRelease_ok_def updateRelease_ok_def rollbackRelease_ok_def
      createRelease_fails_def updateRelease_fails_def rollbackRelease_fails_def
      store_idle_def store_loading_def ctx_ab_def)

section \<open>Properties of the per-namespace reload\<close>

lemma count_list_requests:
  "distinct namespaces \<Longrightarrow> ns \<in> set namespaces \<Longrightarrow>
     count_list (map (\<lambda>namespace. ListReleases (Some namespace)) namespaces)
       (ListReleases (Some ns)) = 1"
  by (induction namespaces) (auto simp: count_list_0_iff)

text \<open>
  Claim C8. When the request for all namespaces does not apply, every reload, whether its
  requests fulfil or not, issues the per-namespace requests of the given namespaces, in their
  order and nothing else: for namespaces without repetition, exactly one request each. When
  all of them fulfil, in whatever order they settle, the items of the store become
  \<open>sortItems\<close> of the concatenation of the results in the order of the namespaces,
  whatever the items were before, and the store is loaded, not failed and no longer loading.
\<close>

theorem loadAll_per_namespace:
  assumes "\<not> isLoadingAll ctx namespaces"
  shows "fst (loadAll sortItems ctx settles listReleases namespaces s)
      = map (\<lambda>ns. ListReleases (Some ns)) namespaces
    \<and> (distinct namespaces \<longrightarrow>
         (\<forall>ns \<in> set namespaces.
            count_list (fst (loadAll sortItems ctx settles listReleases namespaces s))
              (ListReleases (Some ns)) = 1))
    \<and> ((\<forall>ns \<in> set namespaces. \<not> isl (listReleases (Some ns))) \<longrightarrow>
         snd (loadAll sortItems ctx settles listReleases namespaces s) =
           ([], s\<lparr>items :=
                    sortItems (concat (map (\<lambda>ns. projr (listReleases (Some ns))) namespaces)),
                  isLoaded := True, failedLoading := False, isLoading := False\<rparr>))"
proof -
  have issued: "fst (loadAll sortItems ctx settles listReleases namespaces s)
      = map (\<lambda>ns. ListReleases (Some ns)) namespaces"
    using assms by (simp add: loadAll_phases loadItems_def)
  have committed: "snd (loadAll sortItems ctx settles listReleases namespaces s) =
      ([], s\<lparr>items :=
               sortItems (concat (map (\<lambda>ns. projr (listReleases (Some ns))) namespaces)),
             isLoaded := True, failedLoading := False, isLoading := False\<rparr>)"
    if "\<forall>ns \<in> set namespaces. \<not> isl (listReleases (Some ns))"
  proof -
    have "promise_all (map (\<lambda>(i, namespace). (i, listReleases (Some namespace)))
        (settle_order (\<lambda>namespace. settles (ListReleases (Some namespace))) namespaces))
      = Inr (map (\<lambda>namespace. projr (listReleases (Some namespace))) namespaces)"
      using that by (rule promise_all_fulfils)
    then show ?thesis
      using assms
      by (simp add: loadAll_phases loadItems_def loadAll_settle_def loadAll_begin_def)
  qed
  show ?thesis
    using committed by (simp add: issued count_list_requests)
qed

text \<open>The claim at a reload in which the request for \<open>b\<close> rejects, and at one whose
  requests all fulfil, the one for \<open>b\<close> before the one for \<open>a\<close>.\<close>

theorem loadAll_per_namespace_witness:
  "\<not> isLoadingAll ctx_ab [''a'', ''b'']
   \<and> distinct [''a'', ''b'']
   \<and> fst (loadAll rev ctx_ab settle_times fetch_b_fails [''a'', ''b''] store_idle)
       = [ListReleases (Some ''a''), ListReleases (Some ''b'')]
   \<and> count_list (fst (loadAll rev ctx_ab settle_times fetch_b_fails [''a'', ''b''] store_idle))
         (ListReleases (Some ''b'')) = 1
   \<and> snd (loadAll rev ctx_ab settle_times fetch_ok [''a'', ''b''] store_idle)
       = ([], store_idle\<lparr>items := [release_db, release_web], isLoaded := True,
                failedLoading := False, isLoading := False\<rparr>)"
proof -
  have not_all: "\<not> isLoadingAll ctx_ab [''a'', ''b'']"
    by (simp add: isLoadingAll_def ctx_ab_def)
  have ok: "\<forall>ns \<in> set [''a'', ''b'']. \<not> isl (fetch_ok (Some ns))"
    by (simp add: fetch_ok_def)
  note failing = loadAll_per_namespace
    [OF not_all, where sortItems = rev and settles = settle_times
      and listReleases = fetch_b_fails and s = store_idle]
  note fulfilling = loadAll_per_namespace
    [OF not_all, where sortItems = rev and settles = settle_times
      and listReleases = fetch_ok and s = store_idle]
  have issued: "fst (loadAll rev ctx_ab settle_times fetch_b_fails [''a'', ''b''] store_idle)
      = [ListReleases (Some ''a''), ListReleases (Some ''b'')]"
    using failing by simp
  have once: "count_list (fst (loadAll rev ctx_ab settle_times fetch_b_fails [''a'', ''b''] store_idle))
      (ListReleases (Some ''b'')) = 1"
    using failing by simp
  have committed: "snd (loadAll rev ctx_ab settle_times fetch_ok [''a'', ''b''] store_idle)
      = ([], store_idle\<lparr>items :=
            rev (concat (map (\<lambda>ns. projr (fetch_ok (Some ns))) [''a'', ''b''])),
          isLoaded := True, failedLoading := False, isLoading := False\<rparr>)"
    using fulfilling ok by blast
  show ?thesis
    using not_all issued once
    by (simp add: committed fetch_ok_def release_web_def release_db_def)
qed

section \<open>Properties of removing\<close>

lemma keep_fulfilled:
  "ok a \<Longrightarrow> filter (\<lambda>x. \<not> (x \<in> X \<and> ok x)) (removeAll a sel)
     = filter (\<lambda>x. \<not> (x \<in> insert a X \<and> ok x)) sel"
  by (induction sel) auto

lemma keep_rejected:
  "\<not> ok a \<Longrightarrow> filter (\<lambda>x. \<not> (x \<in> X \<and> ok x)) sel
     = filter (\<lambda>x. \<not> (x \<in> insert a X \<and> ok x)) sel"
  by (induction sel) auto

lemma remove_rejected:
  "isl (deleteRelease (getName a) (getNs a)) \<Longrightarrow>
     remove ctx deleteRelease a s = (deleteRelease (getName a) (getNs a), [], s)"
  by (cases "deleteRelease (getName a) (getNs a)") (simp_all add: remove_def removeItem_def)

lemma remove_fulfilled:
  "\<not> isl (deleteRelease (getName a) (getNs a)) \<Longrightarrow>
     remove ctx deleteRelease a s =
       (deleteRelease (getName a) (getNs a),
        if isLoaded s then [LoadAll (contextNamespaces ctx)] else [],
        (if isLoaded s then loadAll_begin s else s)
          \<lparr>selectedItems := removeAll a (selectedItems s)\<rparr>)"
  by (cases "deleteRelease (getName a) (getNs a)")
    (simp_all add: remove_def removeItem_def loadFromContextNamespaces_def loadAll_begin_def)

text \<open>The deletes of the releases \<open>xs\<close>, settling in the order of \<open>xs\<close>: every one
  runs, each outcome is the outcome of its request, the first that fulfils on a loaded store
  starts the one reload, and the releases whose delete fulfilled leave the selection.\<close>

lemma settle_all_remove:
  "settle_all (map (\<lambda>(i, r). (i, remove ctx deleteRelease r)) xs) s =
     (map (\<lambda>(i, r). (i, deleteRelease (getName r) (getNs r))) xs,
      (if isLoaded s \<and> (\<exists>r \<in> snd ` set xs. \<not> isl (deleteRelease (getName r) (getNs r)))
       then [LoadAll (contextNamespaces ctx)] else []),
      (if isLoaded s \<and> (\<exists>r \<in> snd ` set xs. \<not> isl (deleteRelease (getName r) (getNs r)))
       then loadAll_begin s else s)
        \<lparr>selectedItems :=
           filter (\<lambda>x. \<not> (x \<in> snd ` set xs \<and> \<not> isl (deleteRelease (getName x) (getNs x))))
             (selectedItems s)\<rparr>)"
proof (induction xs arbitrary: s)
  case Nil
  then show ?case by simp
next
  case (Cons ia xs)
  obtain i a where ia: "ia = (i, a)" by (cases ia)
  let ?ok = "\<lambda>x. \<not> isl (deleteRelease (getName x) (getNs x))"
  show ?case
  proof (cases "?ok a")
    case False
    then have rej: "isl (deleteRelease (getName a) (getNs a))" by simp
    have keep: "filter (\<lambda>x. \<not> (x \<in> snd ` set xs \<and> ?ok x)) (selectedItems s)
        = filter (\<lambda>x. \<not> (x \<in> insert a (snd ` set xs) \<and> ?ok x)) (selectedItems s)"
      using False by (rule keep_rejected)
    have some: "(\<exists>r \<in> insert a (snd ` set xs). ?ok r) = (\<exists>r \<in> snd ` set xs. ?ok r)"
      using False by auto
    show ?thesis
      unfolding ia
      by (simp only: list.map prod.case settle_all.simps Cons.IH Let_def
          remove_rejected [where deleteRelease = deleteRelease and a = a, OF rej]
          list.set image_insert snd_conv keep some append_Nil)
  next
    case True
    have keep: "filter (\<lambda>x. \<not> (x \<in> snd ` set xs \<and> ?ok x)) (removeAll a (selectedItems s))
        = filter (\<lambda>x. \<not> (x \<in> insert a (snd ` set xs) \<and> ?ok x)) (selectedItems s)"
      using True by (rule keep_fulfilled)
    have some: "(\<exists>r \<in> insert a (snd ` set xs). ?ok r) = True"
      using True by auto
    note step = remove_fulfilled
      [where deleteRelease = deleteRelease and a = a and ctx = ctx and s = s, OF True]
    show ?thesis
    proof (cases "isLoaded s")
      case loaded: True
      have "settle_all (map (\<lambda>(i, r). (i, remove ctx deleteRelease r)) ((i, a) # xs)) s =
          ((i, deleteRelease (getName a) (getNs a))
             # map (\<lambda>(i, r). (i, deleteRelease (getName r) (getNs r))) xs,
           [LoadAll (contextNamespaces ctx)],
           (loadAll_begin s)\<lparr>selectedItems :=
               filter (\<lambda>x. \<not> (x \<in> snd ` set xs \<and> ?ok x)) (removeAll a (selectedItems s))\<rparr>)"
        using loaded by (simp add: step Cons.IH loadAll_begin_def)
      then show ?thesis
        unfolding ia using loaded
        by (simp only: keep some list.set image_insert snd_conv list.map prod.case simp_thms
            if_True)
    next
      case unloaded: False
      have "settle_all (map (\<lambda>(i, r). (i, remove ctx deleteRelease r)) ((i, a) # xs)) s =
          ((i, deleteRelease (getName a) (getNs a))
             # map (\<lambda>(i, r). (i, deleteRelease (getName r) (getNs r))) xs,
           [],
           s\<lparr>selectedItems :=
               filter (\<lambda>x. \<not> (x \<in> snd ` set xs \<and> ?ok x)) (removeAll a (selectedItems s))\<rparr>)"
        using unloaded by (simp add: step Cons.IH)
      then show ?thesis
        unfolding ia using unloaded
        by (simp only: keep some list.set image_insert snd_conv list.map prod.case simp_thms
            if_False)
    qed
  qed
qed

text \<open>
  Claim C9. \<open>removeSelectedItems\<close> issues the delete of every selected item at once and
  runs each to its end: afterwards the selection holds exactly the items whose delete was
  rejected, so an item whose delete fulfilled has been removed whether or not another delete
  was rejected before or after it. The outcome is the fulfilment of all when no delete is
  rejected; otherwise it is the rejection of a selected item's delete that no other rejected
  delete settled before, the first failure met in time. (Per the spec's \<open>delete\<close>, the
  first delete that fulfils on a loaded store starts one reload; the items are not touched.)
\<close>

theorem removeSelectedItems_aggregate:
  assumes "removeSelectedItems ctx settles deleteRelease s = (requests, result, started, s')"
  shows "requests = map (\<lambda>r. DeleteRelease (getName r) (getNs r)) (selectedItems s)
    \<and> selectedItems s'
        = filter (\<lambda>r. isl (deleteRelease (getName r) (getNs r))) (selectedItems s)
    \<and> items s' = items s
    \<and> started =
        (if isLoaded s
            \<and> (\<exists>r \<in> set (selectedItems s). \<not> isl (deleteRelease (getName r) (getNs r)))
         then [LoadAll (contextNamespaces ctx)] else [])
    \<and> ((\<forall>r \<in> set (selectedItems s). \<not> isl (deleteRelease (getName r) (getNs r)))
         \<longrightarrow> result = Inr (map (\<lambda>r. ()) (selectedItems s)))
    \<and> ((\<exists>r \<in> set (selectedItems s). isl (deleteRelease (getName r) (getNs r)))
         \<longrightarrow> (\<exists>r \<in> set (selectedItems s).
                isl (deleteRelease (getName r) (getNs r))
                \<and> result = Inl (projl (deleteRelease (getName r) (getNs r)))
                \<and> (\<forall>r' \<in> set (selectedItems s).
                      isl (deleteRelease (getName r') (getNs r'))
                      \<longrightarrow> settles (DeleteRelease (getName r) (getNs r))
                            \<le> settles (DeleteRelease (getName r') (getNs r')))))"
proof -
  let ?k = "\<lambda>release. settles (DeleteRelease (getName release) (getNs release))"
  let ?f = "\<lambda>release. deleteRelease (getName release) (getNs release)"
  let ?settled = "map (\<lambda>(i, r). (i, ?f r)) (settle_order ?k (selectedItems s))"
  have kept: "filter (\<lambda>x. \<not> (x \<in> set (selectedItems s) \<and> \<not> isl (?f x))) (selectedItems s)
      = filter (\<lambda>r. isl (?f r)) (selectedItems s)"
    by (rule filter_cong) auto
  note run = settle_all_remove
    [where ctx = ctx and deleteRelease = deleteRelease and s = s
      and xs = "settle_order ?k (selectedItems s)", unfolded snd_set_settle_order kept]
  from assms have requests:
    "requests = map (\<lambda>r. DeleteRelease (getName r) (getNs r)) (selectedItems s)"
    by (simp add: removeSelectedItems_def Let_def split: prod.splits)
  from assms have result: "result = promise_all ?settled"
    by (simp add: removeSelectedItems_def Let_def run)
  from assms have started: "started =
      (if isLoaded s \<and> (\<exists>r \<in> set (selectedItems s). \<not> isl (?f r))
       then [LoadAll (contextNamespaces ctx)] else [])"
    by (simp add: removeSelectedItems_def Let_def run)
  from assms have store: "s' =
      (if isLoaded s \<and> (\<exists>r \<in> set (selectedItems s). \<not> isl (?f r))
       then loadAll_begin s else s)
        \<lparr>selectedItems := filter (\<lambda>r. isl (?f r)) (selectedItems s)\<rparr>"
    by (simp add: removeSelectedItems_def Let_def run)
  have selection: "selectedItems s' = filter (\<lambda>r. isl (?f r)) (selectedItems s)"
    by (simp add: store)
  have untouched: "items s' = items s"
    by (simp add: store loadAll_begin_def)
  have all_fulfil: "result = Inr (map (\<lambda>r. ()) (selectedItems s))"
    if "\<forall>r \<in> set (selectedItems s). \<not> isl (?f r)"
    using promise_all_fulfils [of "selectedItems s" ?f ?k, OF that] by (simp add: result)
  have first_rejection: "\<exists>r \<in> set (selectedItems s). isl (?f r)
      \<and> result = Inl (projl (?f r))
      \<and> (\<forall>r' \<in> set (selectedItems s). isl (?f r') \<longrightarrow> ?k r \<le> ?k r')"
    if "\<exists>r \<in> set (selectedItems s). isl (?f r)"
    using promise_all_first_rejection [of "selectedItems s" ?f ?k, OF that]
    by (simp only: result)
  show ?thesis
    using requests selection untouched started all_fulfil first_rejection by blast
qed

text \<open>The claim at three selected items, where the deletes of the first and the second are
  rejected and the second's is rejected first in time; and at two selected items whose
  deletes fulfil.\<close>

theorem removeSelectedItems_aggregate_witness:
  "selectedItems store_idle = [release_old, release_web, release_db]
   \<and> removeSelectedItems ctx_ab settle_times delete_old_web_fail store_idle
       = ([DeleteRelease ''old'' ''a'', DeleteRelease ''web'' ''a'', DeleteRelease ''db'' ''b''],
          Inl (Failure (Some ''fast'')),
          [LoadAll [''a'', ''b'']],
          store_loading\<lparr>selectedItems := [release_old, release_web]\<rparr>)
   \<and> removeSelectedItems ctx_ab settle_times delete_web_fails
         (store_failed\<lparr>selectedItems := [release_old, release_db]\<rparr>)
       = ([DeleteRelease ''old'' ''a'', DeleteRelease ''db'' ''b''], Inr [(), ()], [],
          store_failed\<lparr>selectedItems := []\<rparr>)"
proof -
  obtain requests result started s'
    where run: "removeSelectedItems ctx_ab settle_times delete_old_web_fail store_idle
      = (requests, result, started, s')"
    by (cases "removeSelectedItems ctx_ab settle_times delete_old_web_fail store_idle") auto
  note facts = removeSelectedItems_aggregate [OF run]
  have "removeSelectedItems ctx_ab settle_times delete_old_web_fail store_idle
       = ([DeleteRelease ''old'' ''a'', DeleteRelease ''web'' ''a'', DeleteRelease ''db'' ''b''],
          Inl (Failure (Some ''fast'')),
          [LoadAll [''a'', ''b'']],
          store_loading\<lparr>selectedItems := [release_old, release_web]\<rparr>)"
    using facts
    by (simp add: removeSelectedItems_def remove_def removeItem_def settle_order_def
        promise_all_def loadFromContextNamespaces_def loadAll_begin_def settle_times_def
        delete_old_web_fail_def store_idle_def store_loading_def ctx_ab_def release_old_def
        release_web_def release_db_def)
  moreover have "removeSelectedItems ctx_ab settle_times delete_web_fails
         (store_failed\<lparr>selectedItems := [release_old, release_db]\<rparr>)
       = ([DeleteRelease ''old'' ''a'', DeleteRelease ''db'' ''b''], Inr [(), ()], [],
          store_failed\<lparr>selectedItems := []\<rparr>)"
    by (simp add: removeSelectedItems_def remove_def removeItem_def settle_order_def
        promise_all_def settle_times_def delete_web_fails_def store_failed_def
        store_idle_def release_old_def release_db_def)
  moreover have "selectedItems store_idle = [release_old, release_web, release_db]"
    by (simp add: store_idle_def)
  ultimately show ?thesis by simp
qed

section \<open>Properties of overlapping reloads\<close>

lemma run_reloads_not_loaded:
  "\<forall>ev \<in> set evs. \<not> fulfilled ev \<Longrightarrow> \<not> isLoaded s
     \<Longrightarrow> \<not> isLoaded (run_reloads sortItems evs s)"
  unfolding run_reloads_def
proof (induction evs arbitrary: s)
  case Nil
  then show ?case by simp
next
  case (Cons ev evs)
  then show ?case
    by (cases ev) (auto simp: loadAll_begin_def loadAll_settle_def split: sum.splits)
qed

text \<open>
  Claim C10, as stated, at a concrete input. Two reloads start on a loaded store, the second
  before the first has settled, and the first one fulfils. One reload is still in flight, yet
  \<open>isLoaded\<close> is true, and a \<open>create\<close> whose write fulfils now starts its follow-up
  reload.
\<close>

theorem overlapping_reload_isLoaded:
  "in_flight [Started [''a''], Started [''a'', ''b''], Settled (fetch_ok (Some ''a''))] 0 = 1
   \<and> isLoaded (run_reloads rev
        [Started [''a''], Started [''a'', ''b''], Settled (fetch_ok (Some ''a''))] store_idle)
   \<and> fst (snd (create ctx_ab createRelease_ok ''web''
        (run_reloads rev
          [Started [''a''], Started [''a'', ''b''], Settled (fetch_ok (Some ''a''))] store_idle)))
       = [LoadAll [''a'', ''b'']]"
  by (simp add: run_reloads_def loadAll_begin_def loadAll_settle_def fetch_ok_def create_def
      createRelease_ok_def loadFromContextNamespaces_def ctx_ab_def)

text \<open>
  Claim C10, amended. Every reload sets \<open>isLoaded\<close> to false at its start, and the flag
  stays false over every further start of a reload and every failed settlement, that is until
  some reload, this one or one that overlaps it, settles with success. A \<open>create\<close>,
  \<open>update\<close> or \<open>rollback\<close> whose write completes before that starts no follow-up reload.
\<close>

theorem isLoaded_false_until_success:
  assumes "\<forall>ev \<in> set evs. \<not> fulfilled ev"
    and "t = run_reloads sortItems evs (loadAll_begin s)"
  shows "\<not> isLoaded (loadAll_begin s) \<and> \<not> isLoaded t
    \<and> fst (snd (create ctx createRelease payload t)) = []
    \<and> fst (snd (update ctx updateRelease name namespace payload' t)) = []
    \<and> fst (snd (rollback ctx rollbackRelease name namespace revision t)) = []"
proof -
  have start: "\<not> isLoaded (loadAll_begin s)"
    by (simp add: loadAll_begin_def)
  with assms have later: "\<not> isLoaded t"
    by (simp add: run_reloads_not_loaded)
  show ?thesis
    using start later
    by (simp add: create_def update_def rollback_def split: sum.splits)
qed

text \<open>The amended claim at a reload that starts on a loaded store, is overlapped by a second
  one, and fails while the second is in flight.\<close>

theorem isLoaded_false_until_success_witness:
  "list_all (\<lambda>ev. \<not> fulfilled ev)
     [Started [''a'', ''b''], Settled (fetch_b_fails (Some ''b''))]
   \<and> in_flight [Started [''a'', ''b''], Settled (fetch_b_fails (Some ''b''))] 1 = 1
   \<and> isLoaded store_idle
   \<and> \<not> isLoaded (run_reloads rev
         [Started [''a'', ''b''], Settled (fetch_b_fails (Some ''b''))] (loadAll_begin store_idle))
   \<and> create ctx_ab createRelease_ok ''web''
         (run_reloads rev
           [Started [''a'', ''b''], Settled (fetch_b_fails (Some ''b''))] (loadAll_begin store_idle))
       = (Inr ''web'', [],
          run_reloads rev
           [Started [''a'', ''b''], Settled (fetch_b_fails (Some ''b''))] (loadAll_begin store_idle))"
proof -
  have quiet: "\<forall>ev \<in> set [Started [''a'', ''b''], Settled (fetch_b_fails (Some ''b''))].
      \<not> fulfilled ev"
    by (simp add: fetch_b_fails_def)
  have not_loaded: "\<not> isLoaded (run_reloads rev
      [Started [''a'', ''b''], Settled (fetch_b_fails (Some ''b''))] (loadAll_begin store_idle))"
    using isLoaded_false_until_success
      [OF quiet refl, where sortItems = rev and s = store_idle and ctx = ctx_ab
        and createRelease = createRelease_ok and payload = "''web''"
        and updateRelease = updateRelease_ok and name = "''web''" and namespace = "''a''"
        and payload' = "''values''" and rollbackRelease = rollbackRelease_ok and revision = 1]
    by simp
  have loaded: "isLoaded store_idle"
    by (simp add: store_idle_def)
  show ?thesis
    using quiet not_loaded loaded by (simp add: create_def createRelease_ok_def)
qed

end
